theory Spec2Isabelle
  imports Complex_Main "HOL-Library.Sublist"
begin

section \<open>Data model\<close>

text \<open>
  A point is a row of the two-column array built by the script: the index coordinate
  first, the measured value second. A polyline is the list of its rows, in order.
\<close>

type_synonym point = "real \<times> real"

datatype error = IndexError | ValueError | DegenerateSegment

section \<open>The reducer\<close>

text \<open>
  Modelled from the spec: the geometry kernel, which belongs to the external package and
  is not among the source files. It is the absolute cross product of the chord and the
  vector to the point, over the length of the chord, and it fails on a chord whose two
  ends coincide.
\<close>

definition perpendicularDistance :: "point \<Rightarrow> point \<Rightarrow> point \<Rightarrow> error + real" where
  "perpendicularDistance p a b =
     (if a = b then Inl DegenerateSegment
      else Inr (\<bar>(fst b - fst a) * (snd p - snd a) - (snd b - snd a) * (fst p - fst a)\<bar>
                  / sqrt ((fst b - fst a)\<^sup>2 + (snd b - snd a)\<^sup>2)))"

text \<open>
  The reducer needs a distance for every chord. Where the kernel has no value, the total
  function below takes the distance to the single point of the chord, as the package's
  default distance does. The theorems on the reducer hold for every distance function, so
  none of them depends on this choice; it only serves to run the reducer on concrete
  polylines.
\<close>

definition pldist :: "point \<Rightarrow> point \<Rightarrow> point \<Rightarrow> real" where
  "pldist p a b =
     (case perpendicularDistance p a b of
        Inr d \<Rightarrow> d
      | Inl e \<Rightarrow> sqrt ((fst p - fst a)\<^sup>2 + (snd p - snd a)\<^sup>2))"

text \<open>
  Step 2 of the reducer: the interior point farthest from the chord between the first and
  the last point, the first one among equals. The pair is the index and the distance.
\<close>

definition farthest :: "(point \<Rightarrow> point \<Rightarrow> point \<Rightarrow> real) \<Rightarrow> point list \<Rightarrow> nat \<times> real" where
  "farthest dst ps =
     foldl (\<lambda>(k, d) i. let di = dst (ps ! i) (hd ps) (last ps)
                        in if di > d then (i, di) else (k, d))
           (1, dst (ps ! 1) (hd ps) (last ps))
           [2 ..< length ps - 1]"

lemma farthest_step_bounds:
  "1 \<le> fst acc \<Longrightarrow> fst acc < n \<Longrightarrow> set is \<subseteq> {1 ..< n} \<Longrightarrow>
   1 \<le> fst (foldl (\<lambda>(k, d) i. let di = f i in if di > d then (i, di) else (k, d)) acc is) \<and>
   fst (foldl (\<lambda>(k, d) i. let di = f i in if di > d then (i, di) else (k, d)) acc is) < n"
  for f :: "nat \<Rightarrow> real"
proof (induction "is" arbitrary: acc)
  case Nil
  then show ?case by simp
next
  case (Cons i "is")
  obtain k d where acc: "acc = (k, d)" by (cases acc)
  show ?case
  proof (cases "f i > d")
    case True
    with Cons.prems acc Cons.IH [of "(i, f i)"] show ?thesis by (simp add: Let_def)
  next
    case False
    with Cons.prems acc Cons.IH [of "(k, d)"] show ?thesis by (simp add: Let_def)
  qed
qed

lemma farthest_interior:
  assumes "3 \<le> length ps"
  shows "1 \<le> fst (farthest dst ps) \<and> fst (farthest dst ps) < length ps - 1"
  unfolding farthest_def
  by (rule farthest_step_bounds) (use assms in auto)

text \<open>
  Modelled from the spec: the function \<open>rdp\<close> of the external package of that name, which
  the source imports and which is not among the source files. The definition follows the
  four steps of the reducer: a polyline of at most two points is returned as it is;
  otherwise the farthest point and its distance are found; if the distance exceeds epsilon
  both halves are reduced and joined, the shared point kept once; else only the two end
  points remain. The distance function is a parameter.
\<close>

function rdp :: "(point \<Rightarrow> point \<Rightarrow> point \<Rightarrow> real) \<Rightarrow> point list \<Rightarrow> real \<Rightarrow> point list" where
  "rdp dst ps eps =
     (if length ps \<le> 2 then ps
      else let (k, d) = farthest dst ps
           in if d > eps
              then butlast (rdp dst (take (k + 1) ps) eps) @ rdp dst (drop k ps) eps
              else [hd ps, last ps])"
  by pat_completeness auto
termination
proof (relation "measure (\<lambda>(dst, ps, eps). length ps)")
  show "wf (measure (\<lambda>(dst, ps, eps). length ps))" by simp
next
  fix dst :: "point \<Rightarrow> point \<Rightarrow> point \<Rightarrow> real" and ps :: "point list" and eps :: real
    and x :: "nat \<times> real" and k :: nat and d :: real
  assume "\<not> length ps \<le> 2" and "x = farthest dst ps" and "(k, d) = x"
  then have "1 \<le> k \<and> k < length ps - 1"
    using farthest_interior [of ps dst] by (metis fst_conv not_less_eq_eq numeral_2_eq_2 numeral_3_eq_3)
  then show "((dst, take (k + 1) ps, eps), (dst, ps, eps)) \<in> measure (\<lambda>(dst, ps, eps). length ps)"
    by (simp add: min_def) arith
next
  fix dst :: "point \<Rightarrow> point \<Rightarrow> point \<Rightarrow> real" and ps :: "point list" and eps :: real
    and x :: "nat \<times> real" and k :: nat and d :: real
  assume "\<not> length ps \<le> 2" and "x = farthest dst ps" and "(k, d) = x"
  then have "1 \<le> k \<and> k < length ps - 1"
    using farthest_interior [of ps dst] by (metis fst_conv not_less_eq_eq numeral_2_eq_2 numeral_3_eq_3)
  then show "((dst, drop k ps, eps), (dst, ps, eps)) \<in> measure (\<lambda>(dst, ps, eps). length ps)"
    by (simp add: min_def) arith
qed

declare rdp.simps [simp del]

text \<open>The source's \<open>classic_rdp\<close> hands its arguments to the package function.\<close>

definition classic_rdp :: "(point list \<Rightarrow> real \<Rightarrow> 'r) \<Rightarrow> point list \<Rightarrow> real \<Rightarrow> 'r" where
  "classic_rdp rdp_fn points eps = rdp_fn points eps"

text \<open>
  The condition under which the reducer may drop the points between two kept indices
  \<open>a\<close> and \<open>b\<close>: each of them is within epsilon of the chord between the two.
\<close>

definition within_chord ::
  "(point \<Rightarrow> point \<Rightarrow> point \<Rightarrow> real) \<Rightarrow> point list \<Rightarrow> real \<Rightarrow> nat \<Rightarrow> nat \<Rightarrow> bool" where
  "within_chord dst ps eps a b \<longleftrightarrow>
     a < b \<and> b < length ps \<and> (\<forall>j \<in> {a <..< b}. dst (ps ! j) (ps ! a) (ps ! b) \<le> eps)"

section \<open>Chunks and the parallel reducer\<close>

text \<open>
  Python's \<open>range(0, n, step)\<close>: a zero step raises, a negative one gives nothing, a
  positive one gives 0, step, 2 step, ... below n. The slice \<open>xs[i:j]\<close> with
  non-negative bounds is cut off at the end of the list.
\<close>

definition py_range :: "int \<Rightarrow> int \<Rightarrow> error + nat list" where
  "py_range n step =
     (if step = 0 then Inl ValueError
      else if step < 0 \<or> n \<le> 0 then Inr []
      else Inr (map (\<lambda>j. j * nat step) [0 ..< (nat n + nat step - 1) div nat step]))"

definition slice :: "'a list \<Rightarrow> nat \<Rightarrow> nat \<Rightarrow> 'a list" where
  "slice xs i j = take (j - i) (drop i xs)"

text \<open>
  The list comprehension of \<open>rdp_threadpool\<close>:
  \<open>[points[i:i+chunk_size] for i in range(0, len(points), chunk_size)]\<close>.
\<close>

definition chunks_by :: "'a list \<Rightarrow> int \<Rightarrow> error + 'a list list" where
  "chunks_by points chunk_size =
     (case py_range (int (length points)) chunk_size of
        Inl e \<Rightarrow> Inl e
      | Inr starts \<Rightarrow> Inr (map (\<lambda>i. slice points i (i + nat chunk_size)) starts))"

text \<open>
  \<open>Executor.map\<close> applies the function to the zipped arguments and yields the results in
  the order of the arguments, whatever the order in which the tasks finish; the threads
  themselves are not modelled. \<open>np.vstack\<close> stacks the rows of the arrays it is given and
  raises on an empty list. The pool constructor raises when \<open>max_workers\<close> is not
  positive.
\<close>

definition executor_map :: "('a \<Rightarrow> 'b \<Rightarrow> 'r) \<Rightarrow> 'a list \<Rightarrow> 'b list \<Rightarrow> 'r list" where
  "executor_map fn xs ys = map (\<lambda>(x, y). fn x y) (zip xs ys)"

definition vstack :: "'a list list \<Rightarrow> error + 'a list" where
  "vstack arrays = (if arrays = [] then Inl ValueError else Inr (concat arrays))"

definition rdp_threadpool ::
  "(point list \<Rightarrow> real \<Rightarrow> point list) \<Rightarrow> point list \<Rightarrow> real \<Rightarrow> int \<Rightarrow> int \<Rightarrow> error + point list" where
  "rdp_threadpool rdp_fn points epsilon chunk_size max_workers =
     (case chunks_by points chunk_size of
        Inl e \<Rightarrow> Inl e
      | Inr chunks \<Rightarrow>
          if max_workers \<le> 0 then Inl ValueError
          else let results = executor_map (classic_rdp rdp_fn) chunks
                               (replicate (length chunks) epsilon)
               in vstack results)"

text \<open>
  The partition as the specification words it: contiguous chunks of \<open>n\<close> points each,
  the last one possibly shorter. It is compared with the index slicing of the source.
\<close>

function contiguous_chunks :: "nat \<Rightarrow> 'a list \<Rightarrow> 'a list list" where
  "contiguous_chunks n xs =
     (if n = 0 \<or> xs = [] then [] else take n xs # contiguous_chunks n (drop n xs))"
  by pat_completeness auto
termination
  by (relation "measure (\<lambda>(n, xs). length xs)") auto

declare contiguous_chunks.simps [simp del]

section \<open>The chunk planner\<close>

definition find_optimal_chunk_size :: "'a list \<Rightarrow> int" where
  "find_optimal_chunk_size data =
     (let len_data = length data
      in if len_data \<le> 100 then 1
         else if len_data \<le> 1000 then 4
         else if len_data \<le> 5000 then 8
         else if len_data \<le> 30000 then 16
         else 20)"

section \<open>Numbers with the non-finite values\<close>

text \<open>
  The numbers of the script are doubles in a numpy array, on which a division by zero or
  the root of a negative number does not raise but gives inf or nan. The model keeps exact
  real arithmetic on finite values and has the three non-finite values explicitly.
  Rounding, overflow and the sign of zero are not modelled: zero counts as +0.
\<close>

datatype fnum = Fin real | PInf | NInf | NaN


fun fadd :: "fnum \<Rightarrow> fnum \<Rightarrow> fnum" where
  "fadd (Fin a) (Fin b) = Fin (a + b)"
| "fadd NaN b = NaN"
| "fadd a NaN = NaN"
| "fadd PInf NInf = NaN"
| "fadd NInf PInf = NaN"
| "fadd PInf b = PInf"
| "fadd a PInf = PInf"
| "fadd NInf b = NInf"
| "fadd a NInf = NInf"

fun fmul :: "fnum \<Rightarrow> fnum \<Rightarrow> fnum" where
  "fmul (Fin a) (Fin b) = Fin (a * b)"
| "fmul NaN b = NaN"
| "fmul a NaN = NaN"
| "fmul PInf (Fin b) = (if 0 < b then PInf else if b < 0 then NInf else NaN)"
| "fmul NInf (Fin b) = (if 0 < b then NInf else if b < 0 then PInf else NaN)"
| "fmul (Fin a) PInf = (if 0 < a then PInf else if a < 0 then NInf else NaN)"
| "fmul (Fin a) NInf = (if 0 < a then NInf else if a < 0 then PInf else NaN)"
| "fmul PInf PInf = PInf"
| "fmul NInf NInf = PInf"
| "fmul PInf NInf = NInf"
| "fmul NInf PInf = NInf"

fun fdiv :: "fnum \<Rightarrow> fnum \<Rightarrow> fnum" where
  "fdiv (Fin a) (Fin b) =
     (if b \<noteq> 0 then Fin (a / b) else if a = 0 then NaN else if 0 < a then PInf else NInf)"
| "fdiv NaN b = NaN"
| "fdiv a NaN = NaN"
| "fdiv (Fin a) PInf = Fin 0"
| "fdiv (Fin a) NInf = Fin 0"
| "fdiv PInf (Fin b) = (if 0 \<le> b then PInf else NInf)"
| "fdiv NInf (Fin b) = (if 0 \<le> b then NInf else PInf)"
| "fdiv PInf PInf = NaN"
| "fdiv PInf NInf = NaN"
| "fdiv NInf PInf = NaN"
| "fdiv NInf NInf = NaN"

fun fsqrt :: "fnum \<Rightarrow> fnum" where
  "fsqrt (Fin a) = (if a < 0 then NaN else Fin (sqrt a))"
| "fsqrt PInf = PInf"
| "fsqrt NInf = NaN"
| "fsqrt NaN = NaN"

fun fabs :: "fnum \<Rightarrow> fnum" where
  "fabs (Fin a) = Fin \<bar>a\<bar>"
| "fabs PInf = PInf"
| "fabs NInf = PInf"
| "fabs NaN = NaN"

fun flt :: "fnum \<Rightarrow> fnum \<Rightarrow> bool" where
  "flt (Fin a) (Fin b) = (a < b)"
| "flt NaN b = False"
| "flt a NaN = False"
| "flt a NInf = False"
| "flt PInf b = False"
| "flt NInf b = True"
| "flt a PInf = True"

section \<open>The epsilon estimator\<close>

text \<open>
  The built-in \<open>sum\<close> adds from the left, starting at 0. The estimator reads the first and
  the last row, collects one quotient per row in the list \<open>U\<close>, and scales their sum.
  Only \<open>points[0]\<close> on an empty array raises.
\<close>

definition py_sum :: "fnum list \<Rightarrow> fnum" where
  "py_sum xs = foldl fadd (Fin 0) xs"

definition calculate_epsilon :: "point list \<Rightarrow> error + fnum" where
  "calculate_epsilon points =
     (if points = [] then Inl IndexError
      else
        let num_points = length points;
            (x1, y1) = points ! 0;
            (x2, y2) = last points;
            U = foldl (\<lambda>U i.
                  let (xi, yi) = points ! i;
                      ui = fdiv (Fin \<bar>(y2 - y1) * xi - (x2 - x1) * yi + x2 * y1 - y2 * x1\<bar>)
                                (fsqrt (Fin ((y2 - y1) * 2 + (x2 - x1) * 2)))
                  in U @ [ui]) [] [0 ..< num_points];
            total_ui = py_sum U;
            time_interval = 0.001;
            epsilon = fdiv (fmul total_ui (Fin time_interval)) (Fin (x2 - x1))
        in Inr epsilon)"

section \<open>The single-shot pool submission\<close>

text \<open>
  The module-level pool of two workers. \<open>submit\<close> runs the function on its arguments and
  the future holds the outcome; \<open>result\<close> waits for it and hands it back. Scheduling on
  the threads of the pool is not modelled.
\<close>

datatype 'r future = Future 'r

record pool =
  workers :: nat

definition executor :: pool where
  "executor = \<lparr>workers = 2\<rparr>"

definition submit :: "pool \<Rightarrow> ('a \<Rightarrow> 'b \<Rightarrow> 'r) \<Rightarrow> 'a \<Rightarrow> 'b \<Rightarrow> 'r future" where
  "submit p fn a b = Future (fn a b)"

fun result :: "'r future \<Rightarrow> 'r" where
  "result (Future r) = r"

definition parallel_rdp :: "(point list \<Rightarrow> real \<Rightarrow> 'r) \<Rightarrow> point list \<Rightarrow> real \<Rightarrow> 'r" where
  "parallel_rdp rdp_fn points eps =
     (let future = submit executor (classic_rdp rdp_fn) points eps;
          res = result future
      in res)"

section \<open>The comparison verdict\<close>

text \<open>
  The last lines of the script: the message printed for a t-statistic and a p-value. A
  comparison with nan is false.
\<close>

definition tol :: real where
  "tol = 0.01"

definition comparison_result :: "fnum \<Rightarrow> fnum \<Rightarrow> string" where
  "comparison_result t_statistic p_value =
     (if flt (fabs t_statistic) (Fin tol) \<and> flt (Fin 0.05) p_value
      then ''Result : There is no significant difference between the two lines''
      else ''Result : There is a significant difference between the two lines'')"

section \<open>The statistics of the two results\<close>

text \<open>
  The numpy reductions the script calls, on exact reals: the mean of a list, the column
  means of a two-column array, the mean of a single value, the row-major flattening, and
  the standard deviation with \<open>ddof\<close> degrees of freedom removed. The t-test function of
  the statistics package is a parameter.
\<close>

definition np_mean :: "real list \<Rightarrow> fnum" where
  "np_mean xs = fdiv (Fin (sum_list xs)) (Fin (real (length xs)))"

definition axis0_mean :: "point list \<Rightarrow> fnum list" where
  "axis0_mean pts = [np_mean (map fst pts), np_mean (map snd pts)]"

definition scalar_mean :: "fnum \<Rightarrow> fnum" where
  "scalar_mean v = fdiv v (Fin 1)"

definition flatten :: "point list \<Rightarrow> real list" where
  "flatten pts = concat (map (\<lambda>(x, y). [x, y]) pts)"

definition np_std :: "real list \<Rightarrow> nat \<Rightarrow> fnum" where
  "np_std xs ddof =
     (if xs = [] then NaN
      else let n = length xs;
               mu = sum_list xs / real n;
               ss = (\<Sum>x \<leftarrow> xs. (x - mu)\<^sup>2)
           in fsqrt (fdiv (Fin ss) (Fin (real (n - ddof)))))"

record 'r report =
  classic_mean :: fnum
  parallelized_mean :: fnum
  classic_standard_deviation :: fnum
  parallelized_standard_deviation :: fnum
  t_test :: 'r

definition statistics ::
  "(real list \<Rightarrow> real list \<Rightarrow> 'r) \<Rightarrow> point list \<Rightarrow> point list \<Rightarrow> 'r report" where
  "statistics ttest_ind classic_points parallelized_points =
     \<lparr> classic_mean = scalar_mean (axis0_mean classic_points ! 1),
       parallelized_mean = scalar_mean (axis0_mean parallelized_points ! 1),
       classic_standard_deviation = np_std (flatten classic_points) 1,
       parallelized_standard_deviation = np_std (flatten parallelized_points) 1,
       t_test = ttest_ind (map (\<lambda>point. fst point) classic_points)
                          (map (\<lambda>point. fst point) parallelized_points) \<rparr>"

section \<open>The reducer returns a subsequence\<close>

lemma rdp_shape:
  "ps \<noteq> [] \<Longrightarrow>
     rdp dst ps eps \<noteq> [] \<and> hd (rdp dst ps eps) = hd ps \<and> last (rdp dst ps eps) = last ps
     \<and> subseq (rdp dst ps eps) ps"
proof (induction dst ps eps rule: rdp.induct)
  case (1 dst ps eps)
  show ?case
  proof (cases "length ps \<le> 2")
    case True
    then show ?thesis using "1.prems" by (simp add: rdp.simps [of dst ps eps])
  next
    case False
    obtain k d where kd: "(k, d) = farthest dst ps" by (metis surj_pair)
    from False have len: "3 \<le> length ps" by simp
    with kd farthest_interior [of ps dst] have k: "1 \<le> k" "k < length ps - 1"
      by (metis fst_conv)+
    show ?thesis
    proof (cases "d > eps")
      case far: True
      let ?r1 = "rdp dst (take (k + 1) ps) eps" and ?r2 = "rdp dst (drop k ps) eps"
      have tk: "take (k + 1) ps = take k ps @ [ps ! k]"
        using k by (simp add: take_Suc_conv_app_nth)
      have ih1: "?r1 \<noteq> [] \<and> hd ?r1 = hd (take (k + 1) ps) \<and> last ?r1 = last (take (k + 1) ps)
                 \<and> subseq ?r1 (take (k + 1) ps)"
      proof -
        have "take (k + 1) ps \<noteq> []" using len by auto
        then show ?thesis using "1.IH"(1) [OF False refl kd far] by blast
      qed
      have ih2: "?r2 \<noteq> [] \<and> hd ?r2 = hd (drop k ps) \<and> last ?r2 = last (drop k ps)
                 \<and> subseq ?r2 (drop k ps)"
      proof -
        have "drop k ps \<noteq> []" using k by auto
        then show ?thesis using "1.IH"(2) [OF False refl kd far] by blast
      qed
      have res: "rdp dst ps eps = butlast ?r1 @ ?r2"
        using False far kd [symmetric] by (simp add: rdp.simps [of dst ps eps])
      have l1: "last ?r1 = ps ! k" using ih1 tk by simp
      have h1: "hd ?r1 = hd ps" using ih1 k by (simp add: hd_take)
      have h2: "hd ?r2 = ps ! k" using ih2 k by (simp add: hd_drop_conv_nth)
      have l2: "last ?r2 = last ps" using ih2 k by simp
      have r1: "?r1 = butlast ?r1 @ [ps ! k]"
        using ih1 l1 by (metis append_butlast_last_id)
      have "subseq (butlast ?r1 @ [ps ! k]) (take k ps @ [ps ! k])"
        using ih1 r1 tk by metis
      then have s1: "subseq (butlast ?r1) (take k ps)" by simp
      have "subseq (butlast ?r1 @ ?r2) (take k ps @ drop k ps)"
        using s1 ih2 by (intro list_emb_append_mono) auto
      then have sub: "subseq (rdp dst ps eps) ps" using res by simp
      have hd: "hd (rdp dst ps eps) = hd ps"
      proof (cases "butlast ?r1 = []")
        case True
        with r1 have "?r1 = [ps ! k]" by simp
        with h1 have "hd ps = ps ! k" by simp
        with True h2 res show ?thesis by simp
      next
        case False
        then have "hd (butlast ?r1 @ ?r2) = hd (butlast ?r1)" by simp
        also have "\<dots> = hd ?r1" using False r1 by (metis hd_append2)
        finally show ?thesis using res h1 by simp
      qed
      show ?thesis using res ih2 l2 sub hd by simp
    next
      case near: False
      then have res: "rdp dst ps eps = [hd ps, last ps]"
        using False kd [symmetric] by (simp add: rdp.simps [of dst ps eps])
      have "ps = hd ps # butlast (tl ps) @ [last ps]"
        using len by (cases ps; cases "tl ps" rule: rev_cases) auto
      then have "subseq [hd ps, last ps] ps"
        by (metis list_emb_Nil list_emb_append2 subseq_Cons2 list_emb_refl append_Nil2 subseq_order.order_refl)
      then show ?thesis using res by simp
    qed
  qed
qed

lemma rdp_at_least_two:
  "2 \<le> length ps \<Longrightarrow> 2 \<le> length (rdp dst ps eps)"
proof (induction dst ps eps rule: rdp.induct)
  case (1 dst ps eps)
  show ?case
  proof (cases "length ps \<le> 2")
    case True
    then show ?thesis using "1.prems" by (simp add: rdp.simps [of dst ps eps])
  next
    case False
    obtain k d where kd: "(k, d) = farthest dst ps" by (metis surj_pair)
    from False have len: "3 \<le> length ps" by simp
    with kd farthest_interior [of ps dst] have k: "1 \<le> k" "k < length ps - 1"
      by (metis fst_conv)+
    show ?thesis
    proof (cases "d > eps")
      case far: True
      have "2 \<le> length (drop k ps)" using k by simp
      then have "2 \<le> length (rdp dst (drop k ps) eps)"
        using "1.IH"(2) [OF False refl kd far] by blast
      then show ?thesis
        using False far kd [symmetric] by (simp add: rdp.simps [of dst ps eps])
    next
      case near: False
      then show ?thesis
        using False kd [symmetric] by (simp add: rdp.simps [of dst ps eps])
    qed
  qed
qed

text \<open>
  C1. For every polyline of at least two points and every non-negative epsilon, the serial
  reducer returns a subsequence of its input (nothing invented, moved or duplicated) that
  starts with the first input point, ends with the last one, and is no longer than the
  input.
\<close>

theorem classic_rdp_subsequence:
  assumes "2 \<le> length points" and "0 \<le> eps"
  shows "subseq (classic_rdp (rdp dst) points eps) points
         \<and> hd (classic_rdp (rdp dst) points eps) = hd points
         \<and> last (classic_rdp (rdp dst) points eps) = last points
         \<and> 2 \<le> length (classic_rdp (rdp dst) points eps)
         \<and> length (classic_rdp (rdp dst) points eps) \<le> length points"
proof -
  from assms(1) have ne: "points \<noteq> []" by auto
  have "subseq (rdp dst points eps) points"
    using rdp_shape [OF ne] by blast
  then have "length (rdp dst points eps) \<le> length points"
    by (rule list_emb_length)
  then show ?thesis
    using rdp_shape [OF ne, of dst eps] rdp_at_least_two [OF assms(1), of dst eps]
    by (simp add: classic_rdp_def)
qed

theorem classic_rdp_subsequence_witness:
  "2 \<le> length [(0, 0), (1, 5), (2, 0) :: point] \<and> (0::real) \<le> 1
   \<and> classic_rdp (rdp pldist) [(0, 0), (1, 5), (2, 0)] 1 = [(0, 0), (1, 5), (2, 0)]
   \<and> classic_rdp (rdp pldist) [(0, 0), (1, 1/2), (2, 0)] 1 = [(0, 0), (2, 0)]
   \<and> subseq (classic_rdp (rdp pldist) [(0, 0), (1, 1/2), (2, 0)] 1)
        [(0, 0), (1, 1/2), (2, 0)]
   \<and> length (classic_rdp (rdp pldist) [(0, 0), (1, 1/2), (2, 0)] 1) \<le> 3"
  using classic_rdp_subsequence [of "[(0, 0), (1, 1/2), (2, 0)]" 1 pldist]
  by (simp add: classic_rdp_def rdp.simps farthest_def pldist_def perpendicularDistance_def)

section \<open>The parallel reducer concatenates the chunk results\<close>

lemma starts_unfold:
  assumes "0 < c" and "xs \<noteq> []"
  shows "(length xs + c - 1) div c = Suc ((length (drop c xs) + c - 1) div c)"
proof (cases "length xs \<le> c")
  case True
  with assms have "(length xs + c - 1) div c = 1"
    by (cases xs) (auto simp: div_eq_dividend_iff  Suc_le_eq div_nat_eqI)
  with True assms show ?thesis by simp
next
  case False
  then have "length xs + c - 1 = (length xs - c + c - 1) + c" using assms by simp
  then have "(length xs + c - 1) div c = Suc ((length xs - c + c - 1) div c)"
    using assms by (metis div_add_self2 Suc_eq_plus1 less_numeral_extra(3))
  then show ?thesis by simp
qed

lemma sliced_chunks:
  "0 < c \<Longrightarrow>
   map (\<lambda>i. slice xs i (i + c)) (map (\<lambda>j. j * c) [0 ..< (length xs + c - 1) div c])
     = contiguous_chunks c xs"
proof (induction c xs rule: contiguous_chunks.induct)
  case (1 n xs)
  show ?case
  proof (cases "xs = []")
    case True
    then show ?thesis using "1.prems" by (simp add: contiguous_chunks.simps [of n "[]"])
  next
    case False
    let ?m = "(length (drop n xs) + n - 1) div n"
    have ih: "map (\<lambda>i. slice (drop n xs) i (i + n)) (map (\<lambda>j. j * n) [0 ..< ?m])
                = contiguous_chunks n (drop n xs)"
      using "1.IH" "1.prems" False by simp
    have "[0 ..< Suc ?m] = 0 # [Suc 0 ..< Suc ?m]"
      by (rule upt_conv_Cons) simp
    then have "[0 ..< Suc ?m] = 0 # map Suc [0 ..< ?m]"
      by (simp only: map_Suc_upt)
    then have "map (\<lambda>i. slice xs i (i + n)) (map (\<lambda>j. j * n) [0 ..< Suc ?m])
        = slice xs 0 n # map (\<lambda>i. slice xs i (i + n)) (map (\<lambda>j. Suc j * n) [0 ..< ?m])"
      by (simp add: comp_def del: upt_Suc)
    also have "map (\<lambda>i. slice xs i (i + n)) (map (\<lambda>j. Suc j * n) [0 ..< ?m])
        = map (\<lambda>i. slice (drop n xs) i (i + n)) (map (\<lambda>j. j * n) [0 ..< ?m])"
      by (simp add: slice_def comp_def add.commute)
    finally show ?thesis
      using ih False "1.prems" starts_unfold [of n xs]
      by (simp add: contiguous_chunks.simps [of n xs] slice_def del: upt_Suc)
  qed
qed

lemma contiguous_chunks_concat:
  "0 < n \<Longrightarrow> concat (contiguous_chunks n xs) = xs"
proof (induction n xs rule: contiguous_chunks.induct)
  case (1 n xs)
  show ?case
  proof (cases "xs = []")
    case True
    then show ?thesis by (simp add: contiguous_chunks.simps [of n "[]"])
  next
    case False
    with 1 show ?thesis by (simp add: contiguous_chunks.simps [of n xs])
  qed
qed

lemma contiguous_chunks_sizes:
  "c \<in> set (contiguous_chunks n xs) \<Longrightarrow> c \<noteq> [] \<and> length c \<le> n"
proof (induction n xs rule: contiguous_chunks.induct)
  case (1 n xs)
  show ?case
  proof (cases "n = 0 \<or> xs = []")
    case True
    with "1.prems" show ?thesis by (simp add: contiguous_chunks.simps [of n xs])
  next
    case False
    with "1.prems" have "c = take n xs \<or> c \<in> set (contiguous_chunks n (drop n xs))"
      by (simp add: contiguous_chunks.simps [of n xs])
    then show ?thesis using False "1.IH" by auto
  qed
qed

lemma contiguous_chunks_single:
  "xs \<noteq> [] \<Longrightarrow> length xs \<le> n \<Longrightarrow> contiguous_chunks n xs = [xs]"
  by (cases "n = 0") (simp_all add: contiguous_chunks.simps [of n xs] contiguous_chunks.simps [of n "[]"])

lemma chunks_by_contiguous:
  "1 \<le> chunk_size \<Longrightarrow> chunks_by points chunk_size = Inr (contiguous_chunks (nat chunk_size) points)"
proof (cases "points = []")
  case True
  assume "1 \<le> chunk_size"
  with True show ?thesis
    by (simp add: chunks_by_def py_range_def contiguous_chunks.simps [of _ "[]"])
next
  case False
  assume cs: "1 \<le> chunk_size"
  then have "0 < nat chunk_size" by simp
  from sliced_chunks [OF this, of points] cs False show ?thesis
    by (simp add: chunks_by_def py_range_def)
qed

lemma executor_map_replicate:
  "executor_map fn xs (replicate (length xs) y) = map (\<lambda>x. fn x y) xs"
  unfolding executor_map_def
  by (induction xs) simp_all

text \<open>
  C2. For a non-empty polyline, a chunk size of at least one and a pool of at least one
  worker, the parallel reducer returns the concatenation, in chunk order, of the serial
  reducer's results on the contiguous chunks, with the same epsilon and nothing removed
  at the chunk boundaries; the chunks partition the input; the number of workers does not
  enter the result; and with a chunk size of at least the number of points the result is
  the serial reducer's result on the whole input.
\<close>

theorem rdp_threadpool_concat:
  assumes "points \<noteq> []" and "1 \<le> chunk_size" and "1 \<le> max_workers"
  shows "rdp_threadpool rdp_fn points epsilon chunk_size max_workers
           = Inr (concat (map (\<lambda>chunk. classic_rdp rdp_fn chunk epsilon)
                            (contiguous_chunks (nat chunk_size) points)))
         \<and> concat (contiguous_chunks (nat chunk_size) points) = points
         \<and> (\<forall>chunk \<in> set (contiguous_chunks (nat chunk_size) points).
               chunk \<noteq> [] \<and> int (length chunk) \<le> chunk_size)
         \<and> (int (length points) \<le> chunk_size \<longrightarrow>
               rdp_threadpool rdp_fn points epsilon chunk_size max_workers
                 = Inr (classic_rdp rdp_fn points epsilon))"
proof -
  let ?cs = "contiguous_chunks (nat chunk_size) points"
  from assms(2) have pos: "0 < nat chunk_size" by simp
  have ne: "?cs \<noteq> []"
    using assms(1) pos by (simp add: contiguous_chunks.simps [of "nat chunk_size" points])
  have run: "rdp_threadpool rdp_fn points epsilon chunk_size max_workers
           = Inr (concat (map (\<lambda>chunk. classic_rdp rdp_fn chunk epsilon) ?cs))"
    using assms(3) ne
    by (simp add: rdp_threadpool_def chunks_by_contiguous [OF assms(2)]
        executor_map_replicate vstack_def)
  have sizes: "\<forall>chunk \<in> set ?cs. chunk \<noteq> [] \<and> int (length chunk) \<le> chunk_size"
  proof
    fix chunk assume "chunk \<in> set ?cs"
    from contiguous_chunks_sizes [OF this] assms(2)
    show "chunk \<noteq> [] \<and> int (length chunk) \<le> chunk_size" by auto
  qed
  have single: "int (length points) \<le> chunk_size \<longrightarrow>
               rdp_threadpool rdp_fn points epsilon chunk_size max_workers
                 = Inr (classic_rdp rdp_fn points epsilon)"
  proof
    assume "int (length points) \<le> chunk_size"
    then have "length points \<le> nat chunk_size" by simp
    from contiguous_chunks_single [OF assms(1) this] run show
      "rdp_threadpool rdp_fn points epsilon chunk_size max_workers
         = Inr (classic_rdp rdp_fn points epsilon)" by simp
  qed
  show ?thesis
    using run contiguous_chunks_concat [OF pos, of points] sizes single by blast
qed

theorem rdp_threadpool_concat_witness:
  "[(0, 0), (1, 1/2), (2, 0), (3, 1), (4, 0) :: point] \<noteq> [] \<and> (1::int) \<le> 3 \<and> (1::int) \<le> 4
   \<and> contiguous_chunks 3 [(0, 0), (1, 1/2), (2, 0), (3, 1), (4, 0) :: point]
       = [[(0, 0), (1, 1/2), (2, 0)], [(3, 1), (4, 0)]]
   \<and> rdp_threadpool (rdp pldist) [(0, 0), (1, 1/2), (2, 0), (3, 1), (4, 0)] 1 3 4
       = Inr [(0, 0), (2, 0), (3, 1), (4, 0)]
   \<and> int (length [(0, 0), (1, 1/2), (2, 0) :: point]) \<le> 3
   \<and> rdp_threadpool (rdp pldist) [(0, 0), (1, 1/2), (2, 0)] 1 3 4
       = Inr (classic_rdp (rdp pldist) [(0, 0), (1, 1/2), (2, 0)] 1)"
  using rdp_threadpool_concat [of "[(0, 0), (1, 1/2), (2, 0), (3, 1), (4, 0)]" 3 4
          "rdp pldist" 1]
        rdp_threadpool_concat [of "[(0, 0), (1, 1/2), (2, 0)]" 3 4 "rdp pldist" 1]
  by (simp add: contiguous_chunks.simps classic_rdp_def rdp.simps farthest_def
      pldist_def perpendicularDistance_def)

section \<open>The chunk planner's steps\<close>

text \<open>
  C5. The chunk planner returns 1 for at most 100 points, 4 for at most 1000, 8 for at
  most 5000, 16 for at most 30000 and 20 above; it never returns 0, and slicing the data
  with the returned value gives a partition without an empty chunk.
\<close>

theorem find_optimal_chunk_size_steps:
  "(length data \<le> 100 \<longrightarrow> find_optimal_chunk_size data = 1)
   \<and> (100 < length data \<and> length data \<le> 1000 \<longrightarrow> find_optimal_chunk_size data = 4)
   \<and> (1000 < length data \<and> length data \<le> 5000 \<longrightarrow> find_optimal_chunk_size data = 8)
   \<and> (5000 < length data \<and> length data \<le> 30000 \<longrightarrow> find_optimal_chunk_size data = 16)
   \<and> (30000 < length data \<longrightarrow> find_optimal_chunk_size data = 20)
   \<and> find_optimal_chunk_size data \<noteq> 0
   \<and> (\<exists>chunks. chunks_by data (find_optimal_chunk_size data) = Inr chunks
                \<and> concat chunks = data \<and> [] \<notin> set chunks)"
proof -
  let ?c = "find_optimal_chunk_size data"
  have pos: "1 \<le> ?c" by (simp add: find_optimal_chunk_size_def Let_def)
  then have n: "0 < nat ?c" by simp
  have "[] \<notin> set (contiguous_chunks (nat ?c) data)"
    using contiguous_chunks_sizes [of "[]" "nat ?c" data] by blast
  then have "\<exists>chunks. chunks_by data ?c = Inr chunks \<and> concat chunks = data \<and> [] \<notin> set chunks"
    using chunks_by_contiguous [OF pos, of data] contiguous_chunks_concat [OF n, of data] by simp
  moreover have "?c \<noteq> 0" using pos by simp
  ultimately show ?thesis by (simp add: find_optimal_chunk_size_def Let_def)
qed

theorem find_optimal_chunk_size_steps_witness:
  "length (replicate 50 (0::real)) \<le> 100 \<and> find_optimal_chunk_size (replicate 50 (0::real)) = 1
   \<and> 100 < length (replicate 500 (0::real)) \<and> length (replicate 500 (0::real)) \<le> 1000
   \<and> find_optimal_chunk_size (replicate 500 (0::real)) = 4
   \<and> 1000 < length (replicate 3000 (0::real)) \<and> length (replicate 3000 (0::real)) \<le> 5000
   \<and> find_optimal_chunk_size (replicate 3000 (0::real)) = 8
   \<and> 5000 < length (replicate 20000 (0::real)) \<and> length (replicate 20000 (0::real)) \<le> 30000
   \<and> find_optimal_chunk_size (replicate 20000 (0::real)) = 16
   \<and> 30000 < length (replicate 50000 (0::real))
   \<and> find_optimal_chunk_size (replicate 50000 (0::real)) = 20"
  using find_optimal_chunk_size_steps [of "replicate 50 (0::real)"]
        find_optimal_chunk_size_steps [of "replicate 500 (0::real)"]
        find_optimal_chunk_size_steps [of "replicate 3000 (0::real)"]
        find_optimal_chunk_size_steps [of "replicate 20000 (0::real)"]
        find_optimal_chunk_size_steps [of "replicate 50000 (0::real)"]
  by simp

text \<open>
  C6. The claim reads the planner's value as a number of chunks. The source passes it to
  the parallel reducer as the slicing step: three points and the planner's value 1 give
  three chunks of one point each, not one chunk of three points, and the parallel reducer
  returns the input as it is.
\<close>

theorem planner_value_is_chunk_length:
  "find_optimal_chunk_size [(0, 0), (1, 5), (2, 0) :: point] = 1
   \<and> chunks_by [(0, 0), (1, 5), (2, 0) :: point] (find_optimal_chunk_size [(0, 0), (1, 5), (2, 0) :: point])
       = Inr [[(0, 0)], [(1, 5)], [(2, 0)]]
   \<and> rdp_threadpool (rdp pldist) [(0, 0), (1, 5), (2, 0)] 1 
        (find_optimal_chunk_size [(0, 0), (1, 5), (2, 0) :: point]) 4
       = Inr [(0, 0), (1, 5), (2, 0)]"
  by (simp add: find_optimal_chunk_size_def chunks_by_contiguous contiguous_chunks.simps
      rdp_threadpool_def executor_map_def vstack_def classic_rdp_def rdp.simps)

section \<open>The estimator's formula and outcomes\<close>

lemma append_loop:
  "foldl (\<lambda>U i. U @ [g i]) acc [0 ..< n] = acc @ map g [0 ..< n]"
  by (induction n) simp_all

lemma loop_over_indices:
  "foldl (\<lambda>U i. U @ [g (xs ! i)]) [] [0 ..< length xs] = map g xs"
proof -
  have "map (\<lambda>i. g (xs ! i)) [0 ..< length xs] = map g (map (\<lambda>i. xs ! i) [0 ..< length xs])"
    by (simp add: comp_def)
  also have "\<dots> = map g xs" by (simp only: map_nth)
  finally show ?thesis by (simp add: append_loop)
qed

lemma fadd_finite_fold:
  "foldl fadd (Fin a) (map (\<lambda>p. Fin (f p)) xs) = Fin (a + sum_list (map f xs))"
  by (induction xs arbitrary: a) (simp_all add: add.assoc)

lemma py_sum_finite:
  "py_sum (map (\<lambda>p. Fin (f p)) xs) = Fin (sum_list (map f xs))"
  unfolding py_sum_def by (simp add: fadd_finite_fold)



lemma calculate_epsilon_unfold:
  assumes "points \<noteq> []" and "hd points = (x1, y1)" and "last points = (x2, y2)"
  shows "calculate_epsilon points =
         Inr (fdiv (fmul (py_sum (map (\<lambda>(xi, yi).
                 fdiv (Fin \<bar>(y2 - y1) * xi - (x2 - x1) * yi + x2 * y1 - y2 * x1\<bar>)
                      (fsqrt (Fin ((y2 - y1) * 2 + (x2 - x1) * 2)))) points))
               (Fin 0.001)) (Fin (x2 - x1)))"
proof -
  have first: "points ! 0 = (x1, y1)" using assms(1,2) by (simp add: hd_conv_nth)
  show ?thesis
    using assms(1) first assms(3)
      loop_over_indices [of "\<lambda>p.
                 fdiv (Fin \<bar>(y2 - y1) * fst p - (x2 - x1) * snd p + x2 * y1 - y2 * x1\<bar>)
                      (fsqrt (Fin ((y2 - y1) * 2 + (x2 - x1) * 2)))" points]
    by (simp add: calculate_epsilon_def Let_def split_def del: fdiv.simps fsqrt.simps)
qed

text \<open>
  C3. For a polyline of at least two points whose first point is (x1, y1) and whose last
  point is (x2, y2) with x2 different from x1, the estimator returns the sum over all
  points of |(y2 - y1) xi - (x2 - x1) yi + x2 y1 - y2 x1| divided by the square root of
  (y2 - y1) * 2 + (x2 - x1) * 2, times 0.001, divided by (x2 - x1); where that square root
  is of a positive number the result is the finite real number of this formula.
\<close>

theorem calculate_epsilon_formula:
  assumes "2 \<le> length points" and "hd points = (x1, y1)" and "last points = (x2, y2)"
    and "x2 \<noteq> x1"
  shows "calculate_epsilon points =
           Inr (fdiv (fmul (py_sum (map (\<lambda>(xi, yi).
                   fdiv (Fin \<bar>(y2 - y1) * xi - (x2 - x1) * yi + x2 * y1 - y2 * x1\<bar>)
                        (fsqrt (Fin ((y2 - y1) * 2 + (x2 - x1) * 2)))) points))
                 (Fin 0.001)) (Fin (x2 - x1)))
         \<and> (0 < (y2 - y1) * 2 + (x2 - x1) * 2 \<longrightarrow>
              calculate_epsilon points =
                Inr (Fin ((\<Sum>(xi, yi) \<leftarrow> points.
                             \<bar>(y2 - y1) * xi - (x2 - x1) * yi + x2 * y1 - y2 * x1\<bar>
                               / sqrt ((y2 - y1) * 2 + (x2 - x1) * 2))
                          * 0.001 / (x2 - x1))))"
proof -
  from assms(1) have ne: "points \<noteq> []" by auto
  note unf = calculate_epsilon_unfold [OF ne assms(2,3)]
  have fin: "calculate_epsilon points =
                Inr (Fin ((\<Sum>(xi, yi) \<leftarrow> points.
                             \<bar>(y2 - y1) * xi - (x2 - x1) * yi + x2 * y1 - y2 * x1\<bar>
                               / sqrt ((y2 - y1) * 2 + (x2 - x1) * 2))
                          * 0.001 / (x2 - x1)))"
    if rad: "0 < (y2 - y1) * 2 + (x2 - x1) * 2"
  proof -
    have "(\<lambda>(xi, yi).
                   fdiv (Fin \<bar>(y2 - y1) * xi - (x2 - x1) * yi + x2 * y1 - y2 * x1\<bar>)
                        (fsqrt (Fin ((y2 - y1) * 2 + (x2 - x1) * 2))))
        = (\<lambda>p. Fin ((\<lambda>(xi, yi). \<bar>(y2 - y1) * xi - (x2 - x1) * yi + x2 * y1 - y2 * x1\<bar>
                               / sqrt ((y2 - y1) * 2 + (x2 - x1) * 2)) p))"
      using rad by (auto simp: fun_eq_iff)
    then have "py_sum (map (\<lambda>(xi, yi).
                   fdiv (Fin \<bar>(y2 - y1) * xi - (x2 - x1) * yi + x2 * y1 - y2 * x1\<bar>)
                        (fsqrt (Fin ((y2 - y1) * 2 + (x2 - x1) * 2)))) points)
         = Fin (\<Sum>(xi, yi) \<leftarrow> points.
                             \<bar>(y2 - y1) * xi - (x2 - x1) * yi + x2 * y1 - y2 * x1\<bar>
                               / sqrt ((y2 - y1) * 2 + (x2 - x1) * 2))"
      by (simp only: py_sum_finite)
    then show ?thesis
      using assms(4) by (simp only: unf) simp
  qed
  show ?thesis using unf fin by blast
qed

theorem calculate_epsilon_formula_witness:
  "2 \<le> length [(0, 0), (1, 1), (2, 0) :: point]
   \<and> hd [(0, 0), (1, 1), (2, 0) :: point] = (0, 0)
   \<and> last [(0, 0), (1, 1), (2, 0) :: point] = (2, 0) \<and> (2::real) \<noteq> 0
   \<and> (0::real) < (0 - 0) * 2 + (2 - 0) * 2
   \<and> calculate_epsilon [(0, 0), (1, 1), (2, 0)] = Inr (Fin (1 / 2000))"
  using calculate_epsilon_formula [of "[(0, 0), (1, 1), (2, 0)]" 0 0 2 0]
  by (simp add: py_sum_def)







section \<open>The single-shot submission\<close>

text \<open>
  C10. Submitting the whole input once to the process-wide pool of two workers and
  waiting for the future gives what the serial reducer gives: the pool divides nothing
  and changes nothing in the result.
\<close>

theorem parallel_rdp_is_classic_rdp:
  "parallel_rdp rdp_fn points eps = classic_rdp rdp_fn points eps"
  by (simp add: parallel_rdp_def submit_def)

section \<open>The verdict\<close>

text \<open>
  C7. The comparison reports no significant difference exactly when the absolute value
  of the t-statistic is strictly below the tolerance 0.01 and the p-value is strictly
  above 0.05, both together; in every other case, a nan statistic included, it reports a
  significant difference.
\<close>

theorem comparison_result_conjunction:
  "(comparison_result t_statistic p_value
      = ''Result : There is no significant difference between the two lines''
    \<longleftrightarrow> flt (fabs t_statistic) (Fin 0.01) \<and> flt (Fin 0.05) p_value)
   \<and> (comparison_result t_statistic p_value
         \<noteq> ''Result : There is no significant difference between the two lines''
       \<longleftrightarrow> comparison_result t_statistic p_value
         = ''Result : There is a significant difference between the two lines'')
   \<and> (comparison_result (Fin t) (Fin p)
         = ''Result : There is no significant difference between the two lines''
       \<longleftrightarrow> \<bar>t\<bar> < 0.01 \<and> p > 0.05)"
  by (simp add: comparison_result_def tol_def)

section \<open>The axes of the statistics\<close>

text \<open>
  C8. The claim has the mean, the standard deviation and the t-test all on the value
  coordinate. In the source only the mean is: \<open>np.std\<close> is called on the whole
  two-column array, so it runs over index and value coordinates together with divisor
  2n - 1, and the t-test is given \<open>point[0]\<close>, the index coordinate. For the serial
  result [(0,0), (2,0)] and the parallel result [(0,0), (1,0), (2,0)] the value
  coordinates are all 0, with standard deviation 0, while the source reports 1 and
  sqrt (7/10) and tests [0, 2] against [0, 1, 2].
\<close>

theorem statistics_axes:
  "classic_mean (statistics Pair [(0, 0), (2, 0)] [(0, 0), (1, 0), (2, 0)]) = Fin 0
   \<and> classic_standard_deviation (statistics Pair [(0, 0), (2, 0)] [(0, 0), (1, 0), (2, 0)]) = Fin 1
   \<and> np_std (map snd [(0, 0), (2, 0) :: point]) 1 = Fin 0
   \<and> parallelized_standard_deviation (statistics Pair [(0, 0), (2, 0)] [(0, 0), (1, 0), (2, 0)])
       = Fin (sqrt (7 / 10))
   \<and> np_std (map snd [(0, 0), (1, 0), (2, 0) :: point]) 1 = Fin 0
   \<and> t_test (statistics Pair [(0, 0), (2, 0)] [(0, 0), (1, 0), (2, 0)]) = ([0, 2], [0, 1, 2])
   \<and> (map snd [(0, 0), (2, 0) :: point], map snd [(0, 0), (1, 0), (2, 0) :: point])
       = ([0, 0], [0, 0, 0])"
  by (simp add: statistics_def axis0_mean_def np_mean_def scalar_mean_def np_std_def
      flatten_def power2_eq_square)

section \<open>The reducer at epsilon 0\<close>

lemma farthest_step_value:
  "snd acc = f (fst acc) \<Longrightarrow>
   snd (foldl (\<lambda>(k, d) i. let di = f i in if di > d then (i, di) else (k, d)) acc is)
     = f (fst (foldl (\<lambda>(k, d) i. let di = f i in if di > d then (i, di) else (k, d)) acc is))"
  for f :: "nat \<Rightarrow> real"
proof (induction "is" arbitrary: acc)
  case Nil
  then show ?case by simp
next
  case (Cons i "is")
  obtain k d where acc: "acc = (k, d)" by (cases acc)
  show ?case
  proof (cases "f i > d")
    case True
    with Cons.prems acc Cons.IH [of "(i, f i)"] show ?thesis by (simp add: Let_def)
  next
    case False
    with Cons.prems acc Cons.IH [of "(k, d)"] show ?thesis by (simp add: Let_def)
  qed
qed

lemma farthest_value:
  "snd (farthest dst ps) = dst (ps ! fst (farthest dst ps)) (hd ps) (last ps)"
  unfolding farthest_def
  by (rule farthest_step_value) simp

lemma farthest_step_max:
  "snd acc \<le> snd (foldl (\<lambda>(k, d) i. let di = f i in if di > d then (i, di) else (k, d)) acc is)
   \<and> (\<forall>i \<in> set is.
         f i \<le> snd (foldl (\<lambda>(k, d) i. let di = f i in if di > d then (i, di) else (k, d)) acc is))"
  for f :: "nat \<Rightarrow> real"
proof (induction "is" arbitrary: acc)
  case Nil
  then show ?case by simp
next
  case (Cons i "is")
  obtain k d where acc: "acc = (k, d)" by (cases acc)
  show ?case
  proof (cases "f i > d")
    case True
    with acc Cons.IH [of "(i, f i)"] show ?thesis by (auto simp: Let_def)
  next
    case False
    with acc Cons.IH [of "(k, d)"] show ?thesis by (auto simp: Let_def)
  qed
qed

lemma farthest_max:
  assumes "0 < j" and "j < length ps - 1"
  shows "dst (ps ! j) (hd ps) (last ps) \<le> snd (farthest dst ps)"
proof (cases "j = 1")
  case True
  then show ?thesis
    unfolding farthest_def
    using farthest_step_max [of "(1, dst (ps ! 1) (hd ps) (last ps))"
        "\<lambda>i. dst (ps ! i) (hd ps) (last ps)" "[2 ..< length ps - 1]"]
    by simp
next
  case False
  with assms have "j \<in> set [2 ..< length ps - 1]" by auto
  then show ?thesis
    unfolding farthest_def
    using farthest_step_max [of "(1, dst (ps ! 1) (hd ps) (last ps))"
        "\<lambda>i. dst (ps ! i) (hd ps) (last ps)" "[2 ..< length ps - 1]"]
    by blast
qed

lemma rdp_zero_on_chord:
  assumes "3 \<le> length ps"
    and "\<forall>j. 0 < j \<and> j < length ps - 1 \<longrightarrow> dst (ps ! j) (hd ps) (last ps) \<le> 0"
  shows "rdp dst ps 0 = [hd ps, last ps]"
proof -
  obtain k d where kd: "(k, d) = farthest dst ps" by (metis surj_pair)
  with assms(1) farthest_interior [of ps dst] have k: "1 \<le> k" "k < length ps - 1"
    by (metis fst_conv)+
  have "d = dst (ps ! k) (hd ps) (last ps)"
    using kd farthest_value [of dst ps] by (metis fst_conv snd_conv)
  then have "\<not> 0 < d" using assms(2) k by (simp add: not_less)
  then show ?thesis
    using assms(1) kd [symmetric] by (simp add: rdp.simps [of dst ps 0])
qed

lemma rdp_zero_off_chord:
  assumes "\<forall>i k. i + 1 < k \<and> k < length ps \<longrightarrow>
             (\<exists>j. i < j \<and> j < k \<and> 0 < dst (ps ! j) (ps ! i) (ps ! k))"
  shows "rdp dst ps 0 = ps"
  using assms
proof (induction dst ps "0::real" rule: rdp.induct)
  case (1 dst ps)
  show ?case
  proof (cases "length ps \<le> 2")
    case True
    then show ?thesis by (simp add: rdp.simps [of dst ps 0])
  next
    case False
    obtain k d where kd: "(k, d) = farthest dst ps" by (metis surj_pair)
    from False have len: "3 \<le> length ps" by simp
    with kd farthest_interior [of ps dst] have k: "1 \<le> k" "k < length ps - 1"
      by (metis fst_conv)+
    from len have ne: "ps \<noteq> []" by auto
    have ends: "hd ps = ps ! 0" "last ps = ps ! (length ps - 1)"
      using ne by (simp_all add: hd_conv_nth last_conv_nth)
    have d: "d = snd (farthest dst ps)" using kd by (metis snd_conv)
    have "0 + 1 < length ps - 1 \<and> length ps - 1 < length ps" using len by arith
    then obtain j where j: "0 < j" "j < length ps - 1"
        "0 < dst (ps ! j) (ps ! 0) (ps ! (length ps - 1))"
      using "1.prems" by blast
    then have far: "0 < d"
      using farthest_max [OF j(1,2), of dst] d ends by simp
    have g1: "\<forall>i k'. i + 1 < k' \<and> k' < length (take (k + 1) ps) \<longrightarrow>
                (\<exists>j. i < j \<and> j < k' \<and>
                   0 < dst (take (k + 1) ps ! j) (take (k + 1) ps ! i) (take (k + 1) ps ! k'))"
    proof (intro allI impI)
      fix i k' assume a: "i + 1 < k' \<and> k' < length (take (k + 1) ps)"
      then have "i + 1 < k' \<and> k' < length ps" by simp
      then obtain j where "i < j" "j < k'" "0 < dst (ps ! j) (ps ! i) (ps ! k')"
        using "1.prems" by blast
      moreover have "k' < k + 1" using a by simp
      ultimately show "\<exists>j. i < j \<and> j < k' \<and>
                   0 < dst (take (k + 1) ps ! j) (take (k + 1) ps ! i) (take (k + 1) ps ! k')"
        by (intro exI [of _ j]) simp
    qed
    have g2: "\<forall>i k'. i + 1 < k' \<and> k' < length (drop k ps) \<longrightarrow>
                (\<exists>j. i < j \<and> j < k' \<and>
                   0 < dst (drop k ps ! j) (drop k ps ! i) (drop k ps ! k'))"
    proof (intro allI impI)
      fix i k' assume a: "i + 1 < k' \<and> k' < length (drop k ps)"
      then have "(k + i) + 1 < k + k' \<and> k + k' < length ps" by auto
      then obtain j where j: "k + i < j" "j < k + k'"
          "0 < dst (ps ! j) (ps ! (k + i)) (ps ! (k + k'))"
        using "1.prems" by blast
      have kl: "k \<le> length ps" using k by simp
      have "j = k + (j - k)" using j(1) by simp
      then have "0 < dst (drop k ps ! (j - k)) (drop k ps ! i) (drop k ps ! k')"
        using j(3) kl by (metis nth_drop)
      moreover have "i < j - k" "j - k < k'" using j(1,2) by auto
      ultimately show "\<exists>j. i < j \<and> j < k' \<and>
                   0 < dst (drop k ps ! j) (drop k ps ! i) (drop k ps ! k')"
        by blast
    qed
    have r1: "rdp dst (take (k + 1) ps) 0 = take (k + 1) ps"
      using "1.hyps"(1) [OF False refl kd far g1] .
    have r2: "rdp dst (drop k ps) 0 = drop k ps"
      using "1.hyps"(2) [OF False refl kd far g2] .
    have "butlast (take (k + 1) ps) = take k ps"
      using k by (simp add: butlast_take)
    then have "rdp dst ps 0 = take k ps @ drop k ps"
      using False far kd [symmetric] r1 r2 by (simp add: rdp.simps [of dst ps 0])
    then show ?thesis by simp
  qed
qed

lemma within_chord_take:
  "within_chord dst (take m ps) eps a b \<Longrightarrow> within_chord dst ps eps a b"
  unfolding within_chord_def by auto

lemma within_chord_drop:
  assumes "within_chord dst (drop k ps) eps a b" and "k \<le> length ps"
  shows "within_chord dst ps eps (a + k) (b + k)"
  unfolding within_chord_def
proof (intro conjI ballI)
  from assms show "a + k < b + k" and "b + k < length ps"
    unfolding within_chord_def by auto
next
  fix j assume "j \<in> {a + k <..< b + k}"
  then have j: "j - k \<in> {a <..< b}" "j = k + (j - k)" by auto
  then have "dst (drop k ps ! (j - k)) (drop k ps ! a) (drop k ps ! b) \<le> eps"
    using assms(1) unfolding within_chord_def by blast
  then have "dst (ps ! (k + (j - k))) (ps ! (k + a)) (ps ! (k + b)) \<le> eps"
    using assms(2) by (simp add: nth_drop)
  then show "dst (ps ! j) (ps ! (a + k)) (ps ! (b + k)) \<le> eps"
    using j(2) by (simp add: add.commute)
qed

lemma rdp_kept_indices:
  "ps \<noteq> [] \<Longrightarrow>
   \<exists>I. rdp dst ps eps = map (\<lambda>i. ps ! i) I \<and> I \<noteq> [] \<and> hd I = 0 \<and> last I = length ps - 1
       \<and> set I \<subseteq> {..< length ps} \<and> successively (within_chord dst ps eps) I"
proof (induction dst ps eps rule: rdp.induct)
  case (1 dst ps eps)
  show ?case
  proof (cases "length ps \<le> 2")
    case True
    have res: "rdp dst ps eps = ps" using True by (simp add: rdp.simps [of dst ps eps])
    from True "1.prems" consider a where "ps = [a]" | a b where "ps = [a, b]"
      by (cases ps; cases "tl ps"; cases "tl (tl ps)") auto
    then show ?thesis
    proof cases
      case 1
      then show ?thesis using res by (intro exI [of _ "[0]"]) simp
    next
      case 2
      then show ?thesis using res
        by (intro exI [of _ "[0, 1]"]) (simp add: within_chord_def)
    qed
  next
    case False
    obtain k d where kd: "(k, d) = farthest dst ps" by (metis surj_pair)
    from False have len: "3 \<le> length ps" by simp
    with kd farthest_interior [of ps dst] have k: "1 \<le> k" "k < length ps - 1"
      by (metis fst_conv)+
    from len have ne: "ps \<noteq> []" by auto
    have ends: "hd ps = ps ! 0" "last ps = ps ! (length ps - 1)"
      using ne by (simp_all add: hd_conv_nth last_conv_nth)
    have d: "d = snd (farthest dst ps)" using kd by (metis snd_conv)
    show ?thesis
    proof (cases "d > eps")
      case near: False
      have res: "rdp dst ps eps = [ps ! 0, ps ! (length ps - 1)]"
        using False near kd [symmetric] ends by (simp add: rdp.simps [of dst ps eps])
      have "within_chord dst ps eps 0 (length ps - 1)"
        unfolding within_chord_def
      proof (intro conjI ballI)
        show "0 < length ps - 1" "length ps - 1 < length ps" using len by auto
      next
        fix j assume "j \<in> {0 <..< length ps - 1}"
        then have "dst (ps ! j) (hd ps) (last ps) \<le> snd (farthest dst ps)"
          using farthest_max [of j ps dst] by simp
        then show "dst (ps ! j) (ps ! 0) (ps ! (length ps - 1)) \<le> eps"
          using near d ends by simp
      qed
      moreover have "length ps - 1 < length ps" using len by arith
      ultimately show ?thesis using res ne
        by (intro exI [of _ "[0, length ps - 1]"]) simp
    next
      case far: True
      let ?t = "take (k + 1) ps" and ?d = "drop k ps"
      have tne: "?t \<noteq> []" and dne: "?d \<noteq> []" using len k by auto
      have kl: "k \<le> length ps" using k by simp
      from "1.IH"(1) [OF False refl kd far tne]
      obtain I1 where I1: "rdp dst ?t eps = map (\<lambda>i. ?t ! i) I1" "I1 \<noteq> []" "hd I1 = 0"
        "last I1 = length ?t - 1" "set I1 \<subseteq> {..< length ?t}"
        "successively (within_chord dst ?t eps) I1" by blast
      from "1.IH"(2) [OF False refl kd far dne]
      obtain I2 where I2: "rdp dst ?d eps = map (\<lambda>i. ?d ! i) I2" "I2 \<noteq> []" "hd I2 = 0"
        "last I2 = length ?d - 1" "set I2 \<subseteq> {..< length ?d}"
        "successively (within_chord dst ?d eps) I2" by blast
      let ?I = "butlast I1 @ map (\<lambda>i. i + k) I2"
      have lt: "length ?t = k + 1" using k by simp
      have last1: "last I1 = k" using I1(4) lt by simp
      have I1split: "I1 = butlast I1 @ [k]"
        using I1(2) last1 by (metis append_butlast_last_id)
      have b1ne: "butlast I1 \<noteq> []"
      proof
        assume "butlast I1 = []"
        with I1split have "I1 = [k]" by simp
        with I1(3) k show False by simp
      qed
      have hdb: "hd (butlast I1) = 0"
        using b1ne I1split I1(3) by (metis hd_append2)
      have s1: "successively (within_chord dst ps eps) I1"
        using I1(6) by (rule successively_mono) (rule within_chord_take)
      then have s1': "successively (within_chord dst ps eps) (butlast I1)"
        and link: "within_chord dst ps eps (last (butlast I1)) k"
        using I1split b1ne by (metis successively_append_iff hd_Cons_tl list.sel(1) not_Cons_self2)+
      have "successively (\<lambda>a b. within_chord dst ps eps (a + k) (b + k)) I2"
        using I2(6) by (rule successively_mono) (rule within_chord_drop [OF _ kl])
      then have s2: "successively (within_chord dst ps eps) (map (\<lambda>i. i + k) I2)"
        by (simp add: successively_map)
      have hd2: "hd (map (\<lambda>i. i + k) I2) = k"
        using I2(2,3) by (simp add: hd_map)
      have succ: "successively (within_chord dst ps eps) ?I"
        using s1' s2 link hd2 by (simp add: successively_append_iff)
      have m1: "butlast (rdp dst ?t eps) = map (\<lambda>i. ps ! i) (butlast I1)"
      proof -
        have "set (butlast I1) \<subseteq> {..< k + 1}"
          using I1(5) lt by (metis in_set_butlastD subsetI subsetD)
        then have "map (\<lambda>i. ?t ! i) (butlast I1) = map (\<lambda>i. ps ! i) (butlast I1)"
          by (intro map_cong) auto
        then show ?thesis using I1(1) by (simp add: map_butlast)
      qed
      have m2: "rdp dst ?d eps = map (\<lambda>i. ps ! i) (map (\<lambda>i. i + k) I2)"
        using I2(1) kl by (simp add: nth_drop comp_def add.commute)
      have res: "rdp dst ps eps = map (\<lambda>i. ps ! i) ?I"
        using False far kd [symmetric] m1 m2 by (simp add: rdp.simps [of dst ps eps])
      have lastI: "last ?I = length ps - 1"
        using I2(2,4) k by (simp add: last_map)
      have setI: "set ?I \<subseteq> {..< length ps}"
      proof
        fix x assume "x \<in> set ?I"
        then consider "x \<in> set (butlast I1)" | "x \<in> (\<lambda>i. i + k) ` set I2" by auto
        then show "x \<in> {..< length ps}"
        proof cases
          case 1
          then have "x \<in> set I1" by (rule in_set_butlastD)
          then show ?thesis using I1(5) k by auto
        next
          case 2
          then show ?thesis using I2(5) by auto
        qed
      qed
      show ?thesis
        using res lastI setI succ hdb b1ne I2(2)
        by (intro exI [of _ ?I]) simp
    qed
  qed
qed

text \<open>
  C9, as the reducer has it. With epsilon 0 the serial reducer does not return every input
  unchanged. The comparison is strict, so it removes only points that are at distance 0
  from the chord considered at their recursion step: the result consists of the points at
  an increasing list of indices from the first to the last, and every point between two
  neighbouring kept indices is at distance at most 0 from the chord between these two.
  Hence the input is returned unchanged whenever every run of three or more consecutive
  points has an interior point off the chord between its ends, and a polyline of three or
  more points whose interior points are all at distance 0 from the chord between its
  first and last point is reduced to these two points.
\<close>

theorem classic_rdp_zero_epsilon:
  "(points \<noteq> [] \<longrightarrow>
      (\<exists>I. classic_rdp (rdp dst) points 0 = map (\<lambda>i. points ! i) I
          \<and> I \<noteq> [] \<and> hd I = 0 \<and> last I = length points - 1 \<and> set I \<subseteq> {..< length points}
          \<and> successively (within_chord dst points 0) I))
   \<and> ((\<forall>i k. i + 1 < k \<and> k < length points \<longrightarrow>
          (\<exists>j. i < j \<and> j < k \<and> 0 < dst (points ! j) (points ! i) (points ! k)))
      \<longrightarrow> classic_rdp (rdp dst) points 0 = points)
   \<and> (3 \<le> length points
       \<and> (\<forall>j. 0 < j \<and> j < length points - 1 \<longrightarrow> dst (points ! j) (hd points) (last points) \<le> 0)
      \<longrightarrow> classic_rdp (rdp dst) points 0 = [hd points, last points])"
  using rdp_kept_indices [of points dst 0] rdp_zero_off_chord [of points dst]
    rdp_zero_on_chord [of points dst]
  by (simp add: classic_rdp_def)

theorem classic_rdp_zero_epsilon_witness:
  "[(0, 0), (1, 1), (2, 0), (3, 1), (4, 0) :: point] \<noteq> []
   \<and> classic_rdp (rdp pldist) [(0, 0), (1, 1), (2, 0), (3, 1), (4, 0)] 0
       = [(0, 0), (1, 1), (2, 0), (3, 1), (4, 0)]
   \<and> classic_rdp (rdp pldist) [(0, 0), (1, 0), (2, 5), (3, 0)] 0
       = [(0, 0), (1, 0), (2, 5), (3, 0)]
   \<and> 3 \<le> length [(0, 0), (1, 0), (2, 0) :: point]
   \<and> pldist (1, 0) (0, 0) (2, 0) \<le> 0
   \<and> classic_rdp (rdp pldist) [(0, 0), (1, 0), (2, 0)] 0 = [(0, 0), (2, 0)]"
proof -
  let ?z = "[(0, 0), (1, 1), (2, 0), (3, 1), (4, 0) :: point]"
  let ?q = "[(0, 0), (1, 0), (2, 5), (3, 0) :: point]"
  let ?c = "[(0, 0), (1, 0), (2, 0) :: point]"
  have a: "\<forall>i k. i + 1 < k \<and> k < length ?z \<longrightarrow>
             (\<exists>j. i < j \<and> j < k \<and> 0 < pldist (?z ! j) (?z ! i) (?z ! k))"
  proof (intro allI impI)
    fix i k :: nat
    assume "i + 1 < k \<and> k < length ?z"
    then have "(i = 0 \<and> k = 2) \<or> (i = 0 \<and> k = 3) \<or> (i = 0 \<and> k = 4)
             \<or> (i = 1 \<and> k = 3) \<or> (i = 1 \<and> k = 4) \<or> (i = 2 \<and> k = 4)" by auto
    then have "i < i + 1 \<and> i + 1 < k \<and> 0 < pldist (?z ! (i + 1)) (?z ! i) (?z ! k)"
      by (auto simp: pldist_def perpendicularDistance_def)
    then show "\<exists>j. i < j \<and> j < k \<and> 0 < pldist (?z ! j) (?z ! i) (?z ! k)" by blast
  qed
  have b: "\<forall>i k. i + 1 < k \<and> k < length ?q \<longrightarrow>
             (\<exists>j. i < j \<and> j < k \<and> 0 < pldist (?q ! j) (?q ! i) (?q ! k))"
  proof (intro allI impI)
    fix i k :: nat
    assume "i + 1 < k \<and> k < length ?q"
    then have ik: "(i = 0 \<and> k = 2) \<or> (i = 0 \<and> k = 3) \<or> (i = 1 \<and> k = 3)" by auto
    have "i < 2 \<and> 2 < k \<and> 0 < pldist (?q ! 2) (?q ! i) (?q ! k)
        \<or> i < 1 \<and> 1 < k \<and> 0 < pldist (?q ! 1) (?q ! i) (?q ! k)"
      using ik by (auto simp: pldist_def perpendicularDistance_def)
    then show "\<exists>j. i < j \<and> j < k \<and> 0 < pldist (?q ! j) (?q ! i) (?q ! k)" by blast
  qed
  have c: "\<forall>j. 0 < j \<and> j < length ?c - 1 \<longrightarrow> pldist (?c ! j) (hd ?c) (last ?c) \<le> 0"
  proof (intro allI impI)
    fix j :: nat
    assume "0 < j \<and> j < length ?c - 1"
    then have "j = 1" by auto
    then show "pldist (?c ! j) (hd ?c) (last ?c) \<le> 0"
      by (simp add: pldist_def perpendicularDistance_def)
  qed
  show ?thesis
    using a b c classic_rdp_zero_epsilon [of ?z pldist] classic_rdp_zero_epsilon [of ?q pldist]
      classic_rdp_zero_epsilon [of ?c pldist]
    by (simp add: pldist_def perpendicularDistance_def)
qed

text \<open>
  Three points on one line: with epsilon 0 the middle one is dropped, so the input is not
  returned unchanged.
\<close>

theorem classic_rdp_zero_drops_collinear:
  "classic_rdp (rdp pldist) [(0, 0), (1, 0), (2, 0)] 0 = [(0, 0), (2, 0)]
   \<and> classic_rdp (rdp pldist) [(0, 0), (1, 0), (2, 0)] 0 \<noteq> [(0, 0), (1, 0), (2, 0)]"
  by (simp add: classic_rdp_def rdp.simps farthest_def pldist_def perpendicularDistance_def)

end
